theory Spec2Isabelle
  imports
    Main
    "HOL-Library.Multiset"
    "HOL-Library.Char_ord"
    "HOL-Library.List_Lexorder"
    "HOL-Library.Product_Lexorder"
begin

section \<open>The SNP table of an individual\<close>

text \<open>
  \<^verbatim>\<open>lineage/individual.py\<close> keeps the SNPs of an individual in a pandas DataFrame
  indexed by rsid, with the columns \<^verbatim>\<open>chrom\<close>, \<^verbatim>\<open>pos\<close> and \<^verbatim>\<open>genotype\<close>. A frame is
  modelled as the list of its rows in row order, each row the index label and the
  three cells. A missing genotype (NaN) is \<open>None\<close>; chromosome labels are strings and
  positions integers, as the parsers read them (\<^verbatim>\<open>dtype={'chrom': object}\<close>, int64).
  Labels and genotypes are ASCII, one \<open>char\<close> per character.
\<close>

record snp =
  chrom :: string
  pos :: int
  genotype :: "string option"

type_synonym table = "(string \<times> snp) list"

definition index_keys :: "table \<Rightarrow> string list" where
  "index_keys t = map fst t"

text \<open>The row of a label, as \<^verbatim>\<open>df.loc[k]\<close> finds it in a frame with a unique index.\<close>

definition loc_row :: "table \<Rightarrow> string \<Rightarrow> snp option" where
  "loc_row t k = map_of t k"

subsection \<open>The pandas operations used by the merge\<close>

text \<open>
  \<^verbatim>\<open>Series.str.len()\<close> and \<^verbatim>\<open>Series.str[i]\<close> yield NaN on a missing value, and
  \<^verbatim>\<open>str[i]\<close> also when \<open>i\<close> is out of range; a comparison with NaN is false.
\<close>

definition str_len :: "string option \<Rightarrow> nat option" where
  "str_len g = map_option length g"

definition str_at :: "string option \<Rightarrow> nat \<Rightarrow> char option" where
  "str_at g i = (case g of None \<Rightarrow> None
                 | Some s \<Rightarrow> if i < length s then Some (s ! i) else None)"

definition na_eq :: "char option \<Rightarrow> char option \<Rightarrow> bool" where
  "na_eq x y = (x \<noteq> None \<and> x = y)"

text \<open>
  \<^verbatim>\<open>left.join(right, how='inner', rsuffix='_added')\<close>: one row for every pair of a left
  and a right row with the same index label, in the order of the left frame.
\<close>

definition join_inner :: "table \<Rightarrow> table \<Rightarrow> (string \<times> snp \<times> snp) list" where
  "join_inner l r =
     concat (map (\<lambda>(k, a). map (\<lambda>(k', b). (k, a, b)) (filter (\<lambda>(k', b). k' = k) r)) l)"

text \<open>
  \<^verbatim>\<open>left.combine_first(right)\<close>: the index is the union of both indexes, and every
  cell is the left one unless it is missing there. The columns \<^verbatim>\<open>chrom\<close> and \<^verbatim>\<open>pos\<close>
  are never missing in a row that exists. The union is laid out with the left labels
  first; \<^verbatim>\<open>_add_snps\<close> sorts the frame right after, and no statement below depends on
  the layout of the union.
\<close>

definition index_union :: "string list \<Rightarrow> string list \<Rightarrow> string list" where
  "index_union xs ys = xs @ filter (\<lambda>k. k \<notin> set xs) ys"

definition combine_row :: "snp option \<Rightarrow> snp option \<Rightarrow> snp option" where
  "combine_row x y =
     (case x of
        None \<Rightarrow> y
      | Some a \<Rightarrow>
          (case y of
             None \<Rightarrow> Some a
           | Some b \<Rightarrow>
               Some \<lparr>chrom = chrom a, pos = pos a,
                     genotype = (case genotype a of None \<Rightarrow> genotype b | Some g \<Rightarrow> Some g)\<rparr>))"

definition combine_first :: "table \<Rightarrow> table \<Rightarrow> table" where
  "combine_first l r =
     List.map_filter
       (\<lambda>k. map_option (Pair k) (combine_row (loc_row l k) (loc_row r k)))
       (index_union (index_keys l) (index_keys r))"

text \<open>\<^verbatim>\<open>df.loc[labels, 'genotype'] = np.nan\<close>\<close>

definition set_genotype_nan :: "string list \<Rightarrow> table \<Rightarrow> table" where
  "set_genotype_nan ks t =
     map (\<lambda>(k, r). (k, if k \<in> set ks then r\<lparr>genotype := None\<rparr> else r)) t"

subsection \<open>\<^verbatim>\<open>_double_single_alleles\<close>\<close>

definition double_single_alleles :: "table \<Rightarrow> string \<Rightarrow> table" where
  "double_single_alleles df c =
     map (\<lambda>(k, r).
            (k, if chrom r = c \<and> str_len (genotype r) = Some 1
                then r\<lparr>genotype := map_option (\<lambda>g. g @ g) (genotype r)\<rparr>
                else r)) df"

subsection \<open>\<^verbatim>\<open>_natural_sort_key\<close> and \<^verbatim>\<open>_sort_snps\<close>\<close>

definition is_digit :: "char \<Rightarrow> bool" where
  "is_digit c = (CHR ''0'' \<le> c \<and> c \<le> CHR ''9'')"

text \<open>\<^verbatim>\<open>re.split('([0-9]+)', s)\<close>: the pieces between the digit runs and the runs themselves.\<close>

function re_split_digits :: "string \<Rightarrow> string list" where
  "re_split_digits s =
     (let p = takeWhile (\<lambda>c. \<not> is_digit c) s;
          r = dropWhile (\<lambda>c. \<not> is_digit c) s
      in if r = [] then [p]
         else p # takeWhile is_digit r # re_split_digits (dropWhile is_digit r))"
  by pat_completeness auto

termination re_split_digits
proof (relation "measure length", goal_cases)
  case 1
  show ?case by simp
next
  case (2 s p r)
  then have ne: "r \<noteq> []" and r: "r = dropWhile (\<lambda>c. \<not> is_digit c) s"
    by simp_all
  from ne r have "is_digit (hd r)"
    using hd_dropWhile [of "\<lambda>c. \<not> is_digit c" s] by simp
  with ne have "length (dropWhile is_digit r) < length r"
    by (cases r) (auto simp: le_imp_less_Suc length_dropWhile_le)
  also have "length r \<le> length s"
    unfolding r by (rule length_dropWhile_le)
  finally show ?case by simp
qed

declare re_split_digits.simps [simp del]

datatype tok = TInt nat | TStr string

definition str_isdigit :: "string \<Rightarrow> bool" where
  "str_isdigit s = (s \<noteq> [] \<and> list_all is_digit s)"

definition py_int :: "string \<Rightarrow> nat" where
  "py_int s = foldl (\<lambda>n c. 10 * n + (of_char c - 48)) 0 s"

definition lower_char :: "char \<Rightarrow> char" where
  "lower_char c =
     (if CHR ''A'' \<le> c \<and> c \<le> CHR ''Z'' then char_of (of_char c + (32::nat)) else c)"

definition natural_sort_key :: "string \<Rightarrow> tok list" where
  "natural_sort_key s =
     map (\<lambda>text. if str_isdigit text then TInt (py_int text) else TStr (map lower_char text))
       (re_split_digits s)"

text \<open>
  Python compares two lists at the first position where they differ, and by length when
  one is a prefix of the other. An \<^verbatim>\<open>int\<close> and a \<^verbatim>\<open>str\<close> are unequal, and ordering them
  raises \<^verbatim>\<open>TypeError\<close>: the result \<open>None\<close>.
\<close>

fun tok_lt :: "tok \<Rightarrow> tok \<Rightarrow> bool option" where
  "tok_lt (TInt m) (TInt n) = Some (m < n)"
| "tok_lt (TStr a) (TStr b) = Some (a < b)"
| "tok_lt _ _ = None"

fun py_list_lt :: "tok list \<Rightarrow> tok list \<Rightarrow> bool option" where
  "py_list_lt [] [] = Some False"
| "py_list_lt [] (y # ys) = Some True"
| "py_list_lt (x # xs) [] = Some False"
| "py_list_lt (x # xs) (y # ys) = (if x = y then py_list_lt xs ys else tok_lt x y)"

definition natural_lt :: "string \<Rightarrow> string \<Rightarrow> bool" where
  "natural_lt a b = (py_list_lt (natural_sort_key a) (natural_sort_key b) = Some True)"

text \<open>\<^verbatim>\<open>sorted(xs, key=_natural_sort_key)\<close>: a stable sort that only asks \<^verbatim>\<open><\<close> of the keys.\<close>

fun natural_insort :: "string \<Rightarrow> string list \<Rightarrow> string list" where
  "natural_insort x [] = [x]"
| "natural_insort x (y # ys) =
     (if natural_lt y x then y # natural_insort x ys else x # y # ys)"

definition py_sorted_natural :: "string list \<Rightarrow> string list" where
  "py_sorted_natural xs = foldr natural_insort xs []"

text \<open>\<^verbatim>\<open>Series.unique()\<close>: the distinct values in order of first appearance.\<close>

definition unique :: "'a list \<Rightarrow> 'a list" where
  "unique xs = rev (remdups (rev xs))"

definition move_to_end :: "string \<Rightarrow> string list \<Rightarrow> string list" where
  "move_to_end c sorted_list =
     (if c \<in> set sorted_list then remove1 c sorted_list @ [c] else sorted_list)"

text \<open>The column \<^verbatim>\<open>self._snps['chrom']\<close>.\<close>

definition chrom_labels :: "table \<Rightarrow> string list" where
  "chrom_labels t = map (\<lambda>(k, r). chrom r) t"

text \<open>
  The categories of \<^verbatim>\<open>_sort_snps\<close>: the labels that occur, sorted by their natural key,
  then \<^verbatim>\<open>PAR\<close> and \<^verbatim>\<open>MT\<close> moved to the end.
\<close>

definition chrom_categories :: "table \<Rightarrow> string list" where
  "chrom_categories t =
     move_to_end ''MT'' (move_to_end ''PAR'' (py_sorted_natural (unique (chrom_labels t))))"

text \<open>The code of a value of an ordered categorical: its place among the categories.\<close>

fun category_code :: "string list \<Rightarrow> string \<Rightarrow> nat" where
  "category_code [] c = 0"
| "category_code (x # xs) c = (if x = c then 0 else Suc (category_code xs c))"

definition sort_rank :: "string list \<Rightarrow> string \<times> snp \<Rightarrow> nat \<times> int" where
  "sort_rank cats = (\<lambda>(k, r). (category_code cats (chrom r), pos r))"

text \<open>
  \<^verbatim>\<open>sort_values(['chrom', 'pos'])\<close> on the categorical column: a stable sort by the pair of
  category code and position, pairs ordered lexicographically.
\<close>

definition sort_snps :: "table \<Rightarrow> table" where
  "sort_snps t = sort_key (sort_rank (chrom_categories t)) t"

text \<open>
  A table is in canonical order when its rows ascend by the rank of their chromosome
  among the categories of the table itself, and by position within a chromosome.
\<close>

definition canonical :: "table \<Rightarrow> bool" where
  "canonical t = sorted (map (sort_rank (chrom_categories t)) t)"

subsection \<open>\<^verbatim>\<open>_add_snps\<close>\<close>

definition discrepant_positions :: "(string \<times> snp \<times> snp) list \<Rightarrow> (string \<times> snp \<times> snp) list" where
  "discrepant_positions common_snps =
     filter (\<lambda>(k, a, b). chrom a \<noteq> chrom b \<or> pos a \<noteq> pos b) common_snps"

definition drop_null_genotypes :: "(string \<times> snp \<times> snp) list \<Rightarrow> (string \<times> snp \<times> snp) list" where
  "drop_null_genotypes common_snps =
     filter (\<lambda>(k, a, b). \<not> (genotype a = None) \<and> \<not> (genotype b = None)) common_snps"

definition alleles_differ :: "string option \<Rightarrow> string option \<Rightarrow> bool" where
  "alleles_differ g h =
     ((str_len g = Some 1 \<and> str_len h = Some 1 \<and> \<not> na_eq (str_at g 0) (str_at h 0))
      \<or> (str_len g = Some 2 \<and> str_len h = Some 2
          \<and> \<not> (na_eq (str_at g 0) (str_at h 0) \<and> na_eq (str_at g 1) (str_at h 1))
          \<and> \<not> (na_eq (str_at g 0) (str_at h 1) \<and> na_eq (str_at g 1) (str_at h 0))))"

definition discrepant_genotypes :: "(string \<times> snp \<times> snp) list \<Rightarrow> (string \<times> snp \<times> snp) list" where
  "discrepant_genotypes common_snps =
     filter (\<lambda>(k, a, b). alleles_differ (genotype a) (genotype b)) common_snps"

text \<open>
  The two threshold tests have the same shape: \<^verbatim>\<open>if 0 < n < threshold\<close> prints the
  discrepant rows and goes on, \<^verbatim>\<open>elif n >= threshold\<close> prints and returns.
\<close>

datatype check = Warn | Abort | Quiet

definition threshold_check :: "nat \<Rightarrow> int \<Rightarrow> check" where
  "threshold_check n threshold =
     (if 0 < int n \<and> int n < threshold then Warn
      else if int n \<ge> threshold then Abort
      else Quiet)"

definition merge_snps :: "table \<Rightarrow> table \<Rightarrow> (string \<times> snp \<times> snp) list \<Rightarrow> table" where
  "merge_snps acc new dg =
     sort_snps (set_genotype_nan (map fst dg) (combine_first acc new))"

definition add_snps :: "table option \<Rightarrow> table option \<Rightarrow> int \<Rightarrow> int \<Rightarrow> table option" where
  "add_snps self_snps read positions_threshold genotypes_threshold =
     (case read of
        None \<Rightarrow> self_snps
      | Some df \<Rightarrow>
          (let new = double_single_alleles df ''X'' in
           case self_snps of
             None \<Rightarrow> Some (sort_snps new)
           | Some acc \<Rightarrow>
               (let common_snps = join_inner acc new;
                    dp = discrepant_positions common_snps
                in if threshold_check (length dp) positions_threshold = Abort then Some acc
                   else
                     (let dg = discrepant_genotypes (drop_null_genotypes common_snps)
                      in if threshold_check (length dg) genotypes_threshold = Abort
                         then Some acc
                         else Some (merge_snps acc new dg)))))"

subsection \<open>Reading the files\<close>

text \<open>
  What the file system and \<^verbatim>\<open>pandas.read_csv\<close> answer is given by an environment:
  whether a path exists, the first line the peek reads (through \<^verbatim>\<open>zipfile\<close>, \<^verbatim>\<open>gzip\<close> or
  \<^verbatim>\<open>open\<close>), and for each of the three \<^verbatim>\<open>read_csv\<close> calls either the exception it raises
  (\<open>Inl\<close>) or the frame it returns. The peek is taken to return a line for every
  existing path.
\<close>

type_synonym ancestry_frame = "(string \<times> string \<times> int \<times> string option \<times> string option) list"

record file_env =
  path_exists :: "string \<Rightarrow> bool"
  zip_first_line :: "string \<Rightarrow> string"
  gzip_first_line :: "string \<Rightarrow> string"
  plain_first_line :: "string \<Rightarrow> string"
  read_csv_23andme :: "string \<Rightarrow> string + table"
  read_csv_ftdna :: "string \<Rightarrow> string + table"
  read_csv_ancestry :: "string \<Rightarrow> string + ancestry_frame"

text \<open>\<^verbatim>\<open>sub in s\<close> on strings.\<close>

fun contains :: "string \<Rightarrow> string \<Rightarrow> bool" where
  "contains sub [] = (sub = [])"
| "contains sub (c # cs) = (take (length sub) (c # cs) = sub \<or> contains sub cs)"

definition read_23andme :: "file_env \<Rightarrow> string \<Rightarrow> table option" where
  "read_23andme env file =
     (case read_csv_23andme env file of Inl err \<Rightarrow> None | Inr df \<Rightarrow> Some df)"

definition read_ftdna :: "file_env \<Rightarrow> string \<Rightarrow> table option" where
  "read_ftdna env file =
     (case read_csv_ftdna env file of Inl err \<Rightarrow> None | Inr df \<Rightarrow> Some df)"

definition ancestry_chrom :: "string \<Rightarrow> string" where
  "ancestry_chrom c =
     (if c = ''23'' then ''X'' else if c = ''24'' then ''Y''
      else if c = ''25'' then ''PAR'' else if c = ''26'' then ''MT'' else c)"

definition read_ancestry :: "file_env \<Rightarrow> string \<Rightarrow> table option" where
  "read_ancestry env file =
     (case read_csv_ancestry env file of
        Inl err \<Rightarrow> None
      | Inr df \<Rightarrow>
          Some (map (\<lambda>(rsid, c, p, allele1, allele2).
                  (rsid, \<lparr>chrom = ancestry_chrom c, pos = p,
                          genotype = (case allele1 of None \<Rightarrow> None
                                      | Some x \<Rightarrow> map_option (\<lambda>y. x @ y) allele2)\<rparr>)) df))"

definition peek_first_line :: "file_env \<Rightarrow> string \<Rightarrow> string" where
  "peek_first_line env file =
     (if contains ''.zip'' file then zip_first_line env file
      else if contains ''.gz'' file then gzip_first_line env file
      else plain_first_line env file)"

definition read_raw_data :: "file_env \<Rightarrow> string \<Rightarrow> table option" where
  "read_raw_data env file =
     (if \<not> path_exists env file then None
      else
        (let line = peek_first_line env file
         in if contains ''23andMe'' line then read_23andme env file
            else if contains ''Ancestry'' line then read_ancestry env file
            else if take 4 line = ''RSID'' then read_ftdna env file
            else None))"

subsection \<open>\<^verbatim>\<open>Individual\<close>: \<^verbatim>\<open>load_snps\<close> and the \<^verbatim>\<open>snps\<close> property\<close>

text \<open>
  \<^verbatim>\<open>load_snps\<close> looks at the type of its argument: a \<^verbatim>\<open>list\<close> (of paths), a \<^verbatim>\<open>str\<close>, or
  anything else, for which it raises \<^verbatim>\<open>TypeError('invalid filetype')\<close>.
\<close>

datatype raw_data = PyList "string list" | PyStr string | PyOther

datatype py_error = TypeError string

record individual =
  name :: string
  snps_owned :: "table option"

definition load_files :: "file_env \<Rightarrow> table option \<Rightarrow> string list \<Rightarrow> int \<Rightarrow> int \<Rightarrow> table option" where
  "load_files env self_snps files positions_threshold genotypes_threshold =
     foldl (\<lambda>st file. add_snps st (read_raw_data env file) positions_threshold genotypes_threshold)
       self_snps files"

definition load_snps :: "file_env \<Rightarrow> individual \<Rightarrow> raw_data \<Rightarrow> int \<Rightarrow> int \<Rightarrow> py_error + individual" where
  "load_snps env self raw positions_threshold genotypes_threshold =
     (case raw of
        PyList files \<Rightarrow>
          Inr (self\<lparr>snps_owned :=
                 load_files env (snps_owned self) files positions_threshold genotypes_threshold\<rparr>)
      | PyStr file \<Rightarrow>
          Inr (self\<lparr>snps_owned :=
                 add_snps (snps_owned self) (read_raw_data env file)
                   positions_threshold genotypes_threshold\<rparr>)
      | PyOther \<Rightarrow> Inl (TypeError ''invalid filetype''))"

text \<open>\<^verbatim>\<open>Individual(name, raw_data=None)\<close>, with the default thresholds of \<^verbatim>\<open>load_snps\<close>.\<close>

definition new_individual :: "file_env \<Rightarrow> string \<Rightarrow> raw_data option \<Rightarrow> py_error + individual" where
  "new_individual env nm raw =
     (let self = \<lparr>name = nm, snps_owned = None\<rparr>
      in case raw of None \<Rightarrow> Inr self | Some rd \<Rightarrow> load_snps env self rd 100 10000)"

text \<open>The property \<^verbatim>\<open>snps\<close>: a copy of the frame, or \<^verbatim>\<open>None\<close>. A copy has the same rows.\<close>

definition df_copy :: "table \<Rightarrow> table" where
  "df_copy t = t"

definition snps :: "individual \<Rightarrow> table option" where
  "snps self = (case snps_owned self of Some t \<Rightarrow> Some (df_copy t) | None \<Rightarrow> None)"

section \<open>Notions used in the proofs\<close>

text \<open>
  A key of \<^verbatim>\<open>_natural_sort_key\<close> alternates between strings and numbers, so two keys are
  always comparable; a token is coded as a pair whose lexicographic order is Python's
  order on tokens of the same kind.
\<close>

fun tok_code :: "tok \<Rightarrow> nat \<times> string" where
  "tok_code (TInt n) = (Suc n, [])"
| "tok_code (TStr s) = (0, s)"

definition key_code :: "string \<Rightarrow> (nat \<times> string) list" where
  "key_code s = map tok_code (natural_sort_key s)"

fun alternating :: "tok list \<Rightarrow> bool" where
  "alternating [TStr s] = True"
| "alternating (TStr s # TInt n # ts) = alternating ts"
| "alternating _ = False"

text \<open>The labels that \<^verbatim>\<open>_sort_snps\<close> leaves in natural order, and the forced tail.\<close>

definition not_forced :: "string \<Rightarrow> bool" where
  "not_forced c = (c \<noteq> ''PAR'' \<and> c \<noteq> ''MT'')"

definition forced_tail :: "string set \<Rightarrow> string list" where
  "forced_tail S = (if ''PAR'' \<in> S then [''PAR''] else []) @ (if ''MT'' \<in> S then [''MT''] else [])"


text \<open>The row a merge leaves for a key, from the rows of the two tables.\<close>

definition merged_row :: "snp option \<Rightarrow> snp option \<Rightarrow> snp option" where
  "merged_row x y =
     (case x of
        None \<Rightarrow> y
      | Some a \<Rightarrow>
          (case y of
             None \<Rightarrow> Some a
           | Some b \<Rightarrow>
               Some \<lparr>chrom = chrom a, pos = pos a,
                     genotype =
                       (if alleles_differ (genotype a) (genotype b) then None
                        else case genotype a of None \<Rightarrow> genotype b | Some g \<Rightarrow> Some g)\<rparr>))"

text \<open>
  Two rows agree when they have the same chromosome and position and, where both
  genotypes are present, the same genotype; two tables agree when the rows of every
  common key do.
\<close>

definition agree_rows :: "snp \<Rightarrow> snp \<Rightarrow> bool" where
  "agree_rows a b =
     (chrom a = chrom b \<and> pos a = pos b
      \<and> (genotype a = None \<or> genotype b = None \<or> genotype a = genotype b))"

definition agreeing :: "table \<Rightarrow> table \<Rightarrow> bool" where
  "agreeing l r =
     list_all (\<lambda>(k, a). case loc_row r k of None \<Rightarrow> True | Some b \<Rightarrow> agree_rows a b) l"

section \<open>Sample data\<close>

text \<open>Small frames and a file system, used for the instances that follow the theorems.\<close>

definition sample_acc :: table where
  "sample_acc =
     [(''rs1'', \<lparr>chrom = ''1'', pos = 100, genotype = Some ''AG''\<rparr>),
      (''rs2'', \<lparr>chrom = ''1'', pos = 200, genotype = Some ''TT''\<rparr>)]"

definition sample_moved :: table where
  "sample_moved =
     [(''rs1'', \<lparr>chrom = ''2'', pos = 100, genotype = Some ''GA''\<rparr>),
      (''rs3'', \<lparr>chrom = ''1'', pos = 300, genotype = Some ''CC''\<rparr>)]"

definition sample_other :: table where
  "sample_other =
     [(''rs2'', \<lparr>chrom = ''1'', pos = 200, genotype = Some ''CC''\<rparr>),
      (''rs3'', \<lparr>chrom = ''1'', pos = 300, genotype = Some ''CC''\<rparr>)]"

definition sample_x :: table where
  "sample_x =
     [(''rs5'', \<lparr>chrom = ''X'', pos = 500, genotype = Some ''A''\<rparr>),
      (''rs6'', \<lparr>chrom = ''X'', pos = 600, genotype = Some ''AG''\<rparr>),
      (''rs7'', \<lparr>chrom = ''1'', pos = 700, genotype = Some ''C''\<rparr>),
      (''rs8'', \<lparr>chrom = ''X'', pos = 800, genotype = None\<rparr>)]"

definition sample_chroms :: table where
  "sample_chroms =
     [(''rs1'', \<lparr>chrom = ''2'', pos = 50, genotype = Some ''AA''\<rparr>),
      (''rs2'', \<lparr>chrom = ''1'', pos = 900, genotype = Some ''CC''\<rparr>),
      (''rs3'', \<lparr>chrom = ''10'', pos = 10, genotype = None\<rparr>),
      (''rs4'', \<lparr>chrom = ''X'', pos = 70, genotype = Some ''GG''\<rparr>),
      (''rs5'', \<lparr>chrom = ''MT'', pos = 3, genotype = Some ''T''\<rparr>),
      (''rs6'', \<lparr>chrom = ''PAR'', pos = 8, genotype = Some ''AG''\<rparr>),
      (''rs7'', \<lparr>chrom = ''1'', pos = 20, genotype = Some ''CT''\<rparr>)]"

definition sample_gaps :: table where
  "sample_gaps =
     [(''rs1'', \<lparr>chrom = ''1'', pos = 100, genotype = None\<rparr>),
      (''rs2'', \<lparr>chrom = ''1'', pos = 200, genotype = Some ''TT''\<rparr>),
      (''rs9'', \<lparr>chrom = ''X'', pos = 5, genotype = Some ''AA''\<rparr>)]"

definition sample_fill :: table where
  "sample_fill =
     [(''rs3'', \<lparr>chrom = ''1'', pos = 300, genotype = Some ''CC''\<rparr>),
      (''rs2'', \<lparr>chrom = ''1'', pos = 200, genotype = Some ''CC''\<rparr>),
      (''rs1'', \<lparr>chrom = ''1'', pos = 100, genotype = Some ''GA''\<rparr>),
      (''rs9'', \<lparr>chrom = ''X'', pos = 5, genotype = Some ''A''\<rparr>)]"

definition sample_first :: table where
  "sample_first =
     [(''rs3'', \<lparr>chrom = ''1'', pos = 300, genotype = Some ''CC''\<rparr>),
      (''rs1'', \<lparr>chrom = ''1'', pos = 100, genotype = Some ''GA''\<rparr>),
      (''rs9'', \<lparr>chrom = ''X'', pos = 5, genotype = Some ''A''\<rparr>)]"

definition sample_ag :: table where
  "sample_ag = [(''rs1'', \<lparr>chrom = ''1'', pos = 100, genotype = Some ''AG''\<rparr>)]"

definition sample_ga :: table where
  "sample_ga = [(''rs1'', \<lparr>chrom = ''1'', pos = 100, genotype = Some ''GA''\<rparr>)]"

text \<open>
  Tables of any size: \<open>n\<close> rows on one chromosome at consecutive positions, with the
  keys \<open>rs\<close>, \<open>rsi\<close>, \<open>rsii\<close> and so on.
\<close>

definition numbered_key :: "nat \<Rightarrow> string" where
  "numbered_key i = ''rs'' @ replicate i CHR ''i''"

definition numbered_row :: "string \<Rightarrow> int \<Rightarrow> nat \<Rightarrow> snp" where
  "numbered_row c first i = \<lparr>chrom = c, pos = first + int i, genotype = None\<rparr>"

definition numbered :: "string \<Rightarrow> int \<Rightarrow> nat \<Rightarrow> table" where
  "numbered c first n = map (\<lambda>i. (numbered_key i, numbered_row c first i)) [0..<n]"

definition sample_env :: file_env where
  "sample_env =
     \<lparr>path_exists = (\<lambda>p. p \<noteq> ''missing.txt''),
      zip_first_line = (\<lambda>p. ''# 23andMe''),
      gzip_first_line = (\<lambda>p. ''RSID,CHROMOSOME,POSITION,RESULT''),
      plain_first_line = (\<lambda>p. if p = ''notes.txt'' then ''hello'' else ''# This data file generated by 23andMe''),
      read_csv_23andme = (\<lambda>p. if p = ''moved.txt'' then Inr sample_moved
                                else if p = ''other.txt'' then Inr sample_other
                                else if p = ''broken.txt'' then Inl ''Error tokenizing data''
                                else Inr sample_acc),
      read_csv_ftdna = (\<lambda>p. Inr sample_other),
      read_csv_ancestry = (\<lambda>p. Inl ''no such file'')\<rparr>"


section \<open>Basic facts\<close>

lemma alleles_differ_None [simp]:
  "\<not> alleles_differ None h" "\<not> alleles_differ g None"
  by (simp_all add: alleles_differ_def str_len_def)

lemma alleles_differ_Some:
  "alleles_differ (Some s) (Some u) \<longleftrightarrow>
     (\<exists>a b. s = [a] \<and> u = [b] \<and> a \<noteq> b)
     \<or> (\<exists>a b c d. s = [a, b] \<and> u = [c, d] \<and> \<not> (a = c \<and> b = d) \<and> \<not> (a = d \<and> b = c))"
proof -
  have one: "length x = Suc 0 \<longleftrightarrow> (\<exists>a. x = [a])" for x :: string
    by (cases x) auto
  have two: "length x = 2 \<longleftrightarrow> (\<exists>a b. x = [a, b])" for x :: string
    by (cases x; cases "tl x") auto
  show ?thesis
    unfolding alleles_differ_def str_len_def str_at_def na_eq_def
    by (auto simp: one two)
qed

lemma threshold_check_Abort: "threshold_check n t = Abort \<longleftrightarrow> t \<le> int n"
  by (auto simp: threshold_check_def)

lemma threshold_check_Warn: "threshold_check n t = Warn \<longleftrightarrow> 0 < n \<and> int n < t"
  by (auto simp: threshold_check_def)

lemma add_snps_None [simp]: "add_snps st None pt gt = st"
  by (simp add: add_snps_def)

lemma add_snps_first [simp]:
  "add_snps None (Some df) pt gt = Some (sort_snps (double_single_alleles df ''X''))"
  by (simp add: add_snps_def)

lemma add_snps_Some:
  "add_snps (Some acc) (Some df) pt gt =
     (let new = double_single_alleles df ''X'';
          common_snps = join_inner acc new;
          dg = discrepant_genotypes (drop_null_genotypes common_snps)
      in if pt \<le> int (length (discrepant_positions common_snps)) \<or> gt \<le> int (length dg)
         then Some acc else Some (merge_snps acc new dg))"
  by (simp add: add_snps_def Let_def threshold_check_Abort)

lemma load_files_Cons [simp]:
  "load_files env st (f # fs) pt gt = load_files env (add_snps st (read_raw_data env f) pt gt) fs pt gt"
  by (simp add: load_files_def)

lemma load_files_Nil [simp]: "load_files env st [] pt gt = st"
  by (simp add: load_files_def)

lemma load_files_append [simp]:
  "load_files env st (fs @ gs) pt gt = load_files env (load_files env st fs pt gt) gs pt gt"
  by (simp add: load_files_def)

lemma index_keys_double [simp]:
  "index_keys (double_single_alleles df c) = index_keys df"
  by (induction df) (auto simp: double_single_alleles_def index_keys_def)

lemma double_single_alleles_idem:
  "double_single_alleles (double_single_alleles df c) c = double_single_alleles df c"
proof -
  have odd: "n + n \<noteq> Suc 0" for n :: nat
    by arith
  show ?thesis
    by (induction df) (auto simp: double_single_alleles_def str_len_def odd)
qed

lemma add_snps_double:
  "add_snps st (Some (double_single_alleles df ''X'')) pt gt = add_snps st (Some df) pt gt"
  by (simp add: add_snps_def double_single_alleles_idem)

lemma load_files_skip:
  "read_raw_data env path = None \<Longrightarrow>
     load_files env st (before @ path # rest) pt gt = load_files env st (before @ rest) pt gt"
  by simp

lemma add_snps_stays_Some:
  "\<exists>t'. add_snps (Some t) read pt gt = Some t'"
  by (cases read) (simp_all add: add_snps_Some Let_def)

lemma load_files_stays_Some:
  "\<exists>t'. load_files env (Some t) files pt gt = Some t'"
proof (induction files arbitrary: t)
  case Nil
  show ?case by simp
next
  case (Cons f fs)
  obtain u where "add_snps (Some t) (read_raw_data env f) pt gt = Some u"
    using add_snps_stays_Some by blast
  with Cons show ?case by simp
qed

lemma load_files_None_iff:
  "load_files env None files pt gt = None \<longleftrightarrow> (\<forall>f \<in> set files. read_raw_data env f = None)"
proof (induction files)
  case Nil
  show ?case by simp
next
  case (Cons f fs)
  show ?case
  proof (cases "read_raw_data env f")
    case None
    with Cons show ?thesis by simp
  next
    case (Some df)
    obtain u where "load_files env (Some (sort_snps (double_single_alleles df ''X''))) fs pt gt = Some u"
      using load_files_stays_Some by blast
    with Some show ?thesis by simp
  qed
qed

subsection \<open>The natural order and the sort\<close>

lemma tok_code_inj: "tok_code x = tok_code y \<longleftrightarrow> x = y"
  by (cases x; cases y) auto

lemma tok_lt_code: "tok_lt x y = Some b \<Longrightarrow> b = (tok_code x < tok_code y)"
  by (cases x; cases y) (auto simp: less_prod_def)

lemma py_list_lt_code:
  "py_list_lt xs ys = Some b \<Longrightarrow> b = (map tok_code xs < map tok_code ys)"
proof (induction xs ys rule: py_list_lt.induct)
  case (4 x xs y ys)
  show ?case
  proof (cases "x = y")
    case True
    with 4 show ?thesis by simp
  next
    case False
    with 4 have "b = (tok_code x < tok_code y)"
      by (simp add: tok_lt_code)
    with False show ?thesis
      by (simp add: tok_code_inj)
  qed
qed simp_all

lemma no_digit_not_isdigit:
  "\<not> str_isdigit (takeWhile (\<lambda>c. \<not> is_digit c) s)"
proof -
  have "\<forall>c \<in> set (takeWhile (\<lambda>c. \<not> is_digit c) s). \<not> is_digit c"
    by (auto dest: set_takeWhileD)
  then show ?thesis
    by (cases "takeWhile (\<lambda>c. \<not> is_digit c) s") (auto simp: str_isdigit_def)
qed

lemma digit_run_isdigit:
  assumes "r = dropWhile (\<lambda>c. \<not> is_digit c) s" "r \<noteq> []"
  shows "str_isdigit (takeWhile is_digit r)"
proof -
  from assms have "is_digit (hd r)"
    using hd_dropWhile [of "\<lambda>c. \<not> is_digit c" s] by simp
  with assms(2) have "takeWhile is_digit r \<noteq> []"
    by (cases r) auto
  moreover have "list_all is_digit (takeWhile is_digit r)"
    by (auto simp: list_all_iff dest: set_takeWhileD)
  ultimately show ?thesis
    by (simp add: str_isdigit_def)
qed

lemma alternating_natural_sort_key: "alternating (natural_sort_key s)"
proof (induction s rule: re_split_digits.induct)
  case (1 s)
  let ?r = "dropWhile (\<lambda>c. \<not> is_digit c) s"
  show ?case
  proof (cases "?r = []")
    case True
    then show ?thesis
      by (simp add: natural_sort_key_def re_split_digits.simps [of s] no_digit_not_isdigit)
  next
    case False
    with 1 have "alternating (natural_sort_key (dropWhile is_digit ?r))"
      by simp
    with False show ?thesis
      by (simp add: natural_sort_key_def re_split_digits.simps [of s] no_digit_not_isdigit
          digit_run_isdigit Let_def)
  qed
qed

lemma alternating_comparable:
  "alternating xs \<Longrightarrow> alternating ys \<Longrightarrow> py_list_lt xs ys \<noteq> None"
proof (induction xs arbitrary: ys rule: alternating.induct)
  case (1 s)
  then show ?case
    by (cases ys rule: alternating.cases) auto
next
  case (2 s n ts)
  from 2(2,3) show ?case
  proof (cases ys rule: alternating.cases)
    case (2 s' n' ts')
    with "2.prems" "2.IH" [of ts'] show ?thesis by auto
  qed auto
qed simp_all

lemma natural_lt_code: "natural_lt a b \<longleftrightarrow> key_code a < key_code b"
proof -
  obtain r where r: "py_list_lt (natural_sort_key a) (natural_sort_key b) = Some r"
    using alternating_comparable [OF alternating_natural_sort_key alternating_natural_sort_key, of a b]
    by auto
  from py_list_lt_code [OF r] r show ?thesis
    by (simp add: natural_lt_def key_code_def)
qed

lemma natural_insort_code: "natural_insort x ys = insort_key key_code x ys"
  by (induction ys) (auto simp: natural_lt_code)

lemma py_sorted_natural_code: "py_sorted_natural xs = sort_key key_code xs"
proof -
  have "natural_insort = insort_key key_code"
    by (intro ext) (rule natural_insort_code)
  then show ?thesis
    by (simp add: py_sorted_natural_def sort_key_def)
qed


lemma set_unique [simp]: "set (unique xs) = set xs"
  by (simp add: unique_def)

lemma distinct_unique [simp]: "distinct (unique xs)"
  by (simp add: unique_def)

lemma sorted_wrt_remdups: "sorted_wrt P xs \<Longrightarrow> sorted_wrt P (remdups xs)"
  by (induction xs) auto

lemma sorted_wrt_unique: "sorted_wrt P xs \<Longrightarrow> sorted_wrt P (unique xs)"
proof -
  assume "sorted_wrt P xs"
  then have "sorted_wrt (\<lambda>x y. P y x) (rev xs)"
    by (simp add: sorted_wrt_rev)
  then have "sorted_wrt (\<lambda>x y. P y x) (remdups (rev xs))"
    by (rule sorted_wrt_remdups)
  then show ?thesis
    by (simp add: unique_def sorted_wrt_rev)
qed

lemma move_to_end_filter:
  "distinct l \<Longrightarrow>
     move_to_end c l = filter (\<lambda>x. x \<noteq> c) l @ (if c \<in> set l then [c] else [])"
proof -
  assume d: "distinct l"
  have "filter (\<lambda>x. x \<noteq> c) l = l" if "c \<notin> set l"
    using that by (induction l) auto
  moreover have "remove1 c l = filter (\<lambda>x. x \<noteq> c) l"
    using d by (simp add: distinct_remove1_removeAll removeAll_filter_not_eq) metis
  ultimately show ?thesis
    by (simp add: move_to_end_def)
qed

lemma set_move_to_end [simp]: "set (move_to_end c l) = set l"
proof (cases "c \<in> set l")
  case True
  have "x \<in> set (remove1 c l) \<or> x = c \<longleftrightarrow> x \<in> set l" for x
    using True by (cases "x = c") simp_all
  with True show ?thesis
    by (auto simp: move_to_end_def)
next
  case False
  then show ?thesis
    by (simp add: move_to_end_def)
qed

lemma distinct_move_to_end [simp]: "distinct l \<Longrightarrow> distinct (move_to_end c l)"
  by (auto simp: move_to_end_def)

lemma move_both:
  assumes "distinct l"
  shows "move_to_end ''MT'' (move_to_end ''PAR'' l) = filter not_forced l @ forced_tail (set l)"
proof -
  have "move_to_end ''MT'' (move_to_end ''PAR'' l)
      = filter (\<lambda>x. x \<noteq> ''MT'') (move_to_end ''PAR'' l) @ (if ''MT'' \<in> set l then [''MT''] else [])"
    using assms by (simp add: move_to_end_filter)
  also have "filter (\<lambda>x. x \<noteq> ''MT'') (move_to_end ''PAR'' l)
      = filter not_forced l @ (if ''PAR'' \<in> set l then [''PAR''] else [])"
  proof -
    have "(\<lambda>x. x \<noteq> ''PAR'' \<and> x \<noteq> ''MT'') = not_forced"
      by (auto simp: not_forced_def)
    with assms show ?thesis
      by (simp add: move_to_end_filter)
  qed
  finally show ?thesis
    by (simp add: forced_tail_def)
qed

lemma chrom_categories_shape:
  "chrom_categories t =
     filter not_forced (sort_key key_code (unique (chrom_labels t)))
       @ forced_tail (set (chrom_labels t))"
  by (simp add: chrom_categories_def py_sorted_natural_code move_both chrom_labels_def)

lemma set_chrom_categories [simp]: "set (chrom_categories t) = set (chrom_labels t)"
  by (simp add: chrom_categories_def py_sorted_natural_code chrom_labels_def)

lemma distinct_chrom_categories [simp]: "distinct (chrom_categories t)"
  by (simp add: chrom_categories_def py_sorted_natural_code)

lemma category_code_nth:
  "distinct cs \<Longrightarrow> i < length cs \<Longrightarrow> category_code cs (cs ! i) = i"
proof (induction cs arbitrary: i)
  case Nil
  then show ?case by simp
next
  case (Cons c cs)
  then show ?case
    by (cases i) auto
qed

lemma map_category_code:
  "distinct cs \<Longrightarrow> map (category_code cs) cs = [0..<length cs]"
  by (rule nth_equalityI) (simp_all add: category_code_nth)

lemma category_code_inj:
  "x \<in> set cs \<Longrightarrow> category_code cs x = category_code cs y \<Longrightarrow> x = y"
  by (induction cs) (auto split: if_splits)

lemma in_order_is_categories:
  assumes "distinct cs" "set xs = set cs" "sorted (map (category_code cs) xs)"
  shows "unique xs = cs"
proof -
  let ?f = "category_code cs"
  have inj: "inj_on ?f (set cs)"
    by (rule inj_onI) (rule category_code_inj)
  have "sorted_wrt (\<lambda>x y. ?f x \<le> ?f y) (unique xs)"
    using assms(3) by (simp add: sorted_map sorted_wrt_unique)
  then have s: "sorted (map ?f (unique xs))"
    by (simp add: sorted_map)
  have d: "distinct (map ?f (unique xs))"
    using inj assms(2) by (simp add: distinct_map)
  have s': "sorted (map ?f cs)" and d': "distinct (map ?f cs)"
    using assms(1) by (simp_all add: map_category_code)
  have "set (map ?f (unique xs)) = set (map ?f cs)"
    using assms(2) by simp
  with s d s' d' have "map ?f (unique xs) = map ?f cs"
    by (rule sorted_distinct_set_unique)
  moreover have "inj_on ?f (set (unique xs) \<union> set cs)"
    using inj assms(2) by simp
  ultimately show ?thesis
    by (simp add: inj_on_map_eq_map)
qed

lemma mset_sort_snps [simp]: "mset (sort_snps t) = mset t"
  by (simp add: sort_snps_def)

lemma set_sort_snps [simp]: "set (sort_snps t) = set t"
  by (simp add: sort_snps_def)

lemma length_sort_snps [simp]: "length (sort_snps t) = length t"
  by (simp add: sort_snps_def)

lemma sorted_sort_snps: "sorted (map (sort_rank (chrom_categories t)) (sort_snps t))"
  by (simp add: sort_snps_def)

lemma chrom_labels_sort_snps:
  "unique (chrom_labels (sort_snps t)) = chrom_categories t"
proof (rule in_order_is_categories)
  show "distinct (chrom_categories t)"
    by simp
  show "set (chrom_labels (sort_snps t)) = set (chrom_categories t)"
    by (simp add: chrom_labels_def)
  have "sorted_wrt (\<lambda>x y. sort_rank (chrom_categories t) x \<le> sort_rank (chrom_categories t) y)
          (sort_snps t)"
    using sorted_sort_snps [of t] by (simp add: sorted_map)
  then have "sorted_wrt (\<lambda>x y. category_code (chrom_categories t) (chrom (snd x))
              \<le> category_code (chrom_categories t) (chrom (snd y))) (sort_snps t)"
    by (rule sorted_wrt_mono_rel [rotated])
       (auto simp: sort_rank_def less_eq_prod_def split: prod.splits)
  then show "sorted (map (category_code (chrom_categories t)) (chrom_labels (sort_snps t)))"
    by (simp add: sorted_map chrom_labels_def sorted_wrt_map case_prod_unfold)
qed

lemma chrom_categories_sort_snps:
  "chrom_categories (sort_snps t) = chrom_categories t"
proof -
  let ?S = "sort_key key_code (unique (chrom_labels t))"
  let ?C = "chrom_categories t"
  have C: "?C = filter not_forced ?S @ forced_tail (set (chrom_labels t))"
    by (rule chrom_categories_shape)
  have tail: "filter not_forced (forced_tail A) = []" for A
    by (simp add: forced_tail_def not_forced_def)
  have "filter not_forced (sort_key key_code ?C) = sort_key key_code (filter not_forced ?C)"
    by (rule filter_sort)
  also have "filter not_forced ?C = filter not_forced ?S"
    by (subst C) (simp add: tail)
  also have "sort_key key_code (filter not_forced ?S) = filter not_forced ?S"
    by (rule sort_key_id_if_sorted) (simp add: sorted_filter)
  finally have body: "filter not_forced (sort_key key_code ?C) = filter not_forced ?S" .
  have "chrom_categories (sort_snps t)
      = filter not_forced (sort_key key_code ?C) @ forced_tail (set (chrom_labels (sort_snps t)))"
    by (simp add: chrom_categories_shape chrom_labels_sort_snps)
  also have "set (chrom_labels (sort_snps t)) = set (chrom_labels t)"
    by (simp add: chrom_labels_def)
  finally show ?thesis
    using body C by simp
qed

lemma canonical_sort_snps: "canonical (sort_snps t)"
  using sorted_sort_snps [of t] by (simp add: canonical_def chrom_categories_sort_snps)


lemma canonical_add_snps:
  assumes "case st of None \<Rightarrow> True | Some acc \<Rightarrow> canonical acc"
  shows "case add_snps st read pt gt of None \<Rightarrow> True | Some t' \<Rightarrow> canonical t'"
proof (cases read)
  case None
  with assms show ?thesis by simp
next
  case (Some df)
  show ?thesis
  proof (cases st)
    case None
    with Some show ?thesis
      by (simp add: canonical_sort_snps)
  next
    case (Some acc)
    with assms \<open>read = Some df\<close> show ?thesis
      by (simp add: add_snps_Some Let_def merge_snps_def canonical_sort_snps)
  qed
qed

lemma canonical_load_files:
  assumes "case st of None \<Rightarrow> True | Some acc \<Rightarrow> canonical acc"
  shows "case load_files env st files pt gt of None \<Rightarrow> True | Some t' \<Rightarrow> canonical t'"
  using assms
proof (induction files arbitrary: st)
  case Nil
  then show ?case by simp
next
  case (Cons f fs)
  from canonical_add_snps [OF Cons.prems] Cons.IH show ?case
    by simp
qed

lemma sorted_py_sorted_natural:
  "sorted_wrt (\<lambda>a b. \<not> natural_lt b a) (py_sorted_natural ls)"
proof -
  have "sorted (map key_code (sort_key key_code ls))"
    by simp
  then show ?thesis
    by (simp add: py_sorted_natural_code sorted_map natural_lt_code not_less)
qed

lemma six_labels:
  "move_to_end ''MT'' (move_to_end ''PAR''
     (py_sorted_natural (unique [''2'', ''1'', ''10'', ''X'', ''MT'', ''PAR''])))
   = [''1'', ''2'', ''10'', ''X'', ''PAR'', ''MT'']"
  by code_simp

subsection \<open>Rows by key\<close>

lemma loc_row_iff:
  "distinct (index_keys t) \<Longrightarrow> loc_row t k = Some r \<longleftrightarrow> (k, r) \<in> set t"
  by (simp add: loc_row_def index_keys_def)

lemma loc_row_None_iff: "loc_row t k = None \<longleftrightarrow> k \<notin> set (index_keys t)"
  by (simp add: loc_row_def index_keys_def map_of_eq_None_iff)

lemma set_join_inner:
  "set (join_inner l r) = {(k, a, b). (k, a) \<in> set l \<and> (k, b) \<in> set r}"
proof -
  have "(k, a, b) \<in> set (join_inner l r) \<longleftrightarrow> (k, a) \<in> set l \<and> (k, b) \<in> set r" for k a b
    by (induction l) (auto simp: join_inner_def)
  then show ?thesis
    by auto
qed

lemma join_inner_loc:
  assumes "distinct (index_keys l)" "distinct (index_keys r)"
  shows "(k, a, b) \<in> set (join_inner l r) \<longleftrightarrow> loc_row l k = Some a \<and> loc_row r k = Some b"
  using assms by (simp add: set_join_inner loc_row_iff)

lemma set_index_union [simp]: "set (index_union xs ys) = set xs \<union> set ys"
  by (auto simp: index_union_def)

lemma distinct_index_union:
  "distinct xs \<Longrightarrow> distinct ys \<Longrightarrow> distinct (index_union xs ys)"
  by (auto simp: index_union_def)

lemma combine_row_None_iff: "combine_row x y = None \<longleftrightarrow> x = None \<and> y = None"
  by (simp add: combine_row_def split: option.splits)

lemma combine_first_rows:
  "combine_first l r =
     map (\<lambda>k. (k, the (combine_row (loc_row l k) (loc_row r k))))
       (index_union (index_keys l) (index_keys r))"
proof -
  let ?f = "\<lambda>k. map_option (Pair k) (combine_row (loc_row l k) (loc_row r k))"
  let ?U = "index_union (index_keys l) (index_keys r)"
  have "?f k \<noteq> None" if "k \<in> set ?U" for k
    using that by (auto simp: combine_row_None_iff loc_row_None_iff)
  then have "filter (\<lambda>k. ?f k \<noteq> None) ?U = ?U"
    by (simp add: filter_id_conv)
  moreover have "map (the \<circ> ?f) ?U = map (\<lambda>k. (k, the (combine_row (loc_row l k) (loc_row r k)))) ?U"
    by (rule map_cong) (auto simp: combine_row_None_iff loc_row_None_iff option.map_sel)
  ultimately show ?thesis
    by (simp add: combine_first_def map_filter_def)
qed

lemma index_keys_combine_first [simp]:
  "index_keys (combine_first l r) = index_union (index_keys l) (index_keys r)"
  by (simp add: combine_first_rows index_keys_def comp_def)

lemma loc_row_combine_first:
  "loc_row (combine_first l r) k = combine_row (loc_row l k) (loc_row r k)"
proof (cases "k \<in> set (index_union (index_keys l) (index_keys r))")
  case True
  then have "combine_row (loc_row l k) (loc_row r k) \<noteq> None"
    by (auto simp: combine_row_None_iff loc_row_None_iff)
  with True show ?thesis
    unfolding loc_row_def combine_first_rows map_of_map_restrict
    by auto
next
  case False
  then have "loc_row l k = None" "loc_row r k = None"
    by (simp_all add: loc_row_None_iff)
  with False show ?thesis
    unfolding loc_row_def combine_first_rows map_of_map_restrict
    by (simp add: combine_row_def)
qed

lemma index_keys_set_genotype_nan [simp]:
  "index_keys (set_genotype_nan ks t) = index_keys t"
  by (induction t) (auto simp: set_genotype_nan_def index_keys_def)

lemma loc_row_set_genotype_nan:
  "loc_row (set_genotype_nan ks t) k =
     map_option (\<lambda>r. if k \<in> set ks then r\<lparr>genotype := None\<rparr> else r) (loc_row t k)"
proof (induction t)
  case Nil
  show ?case
    by (simp add: set_genotype_nan_def loc_row_def)
next
  case (Cons x t)
  obtain k' r where x: "x = (k', r)"
    by (cases x)
  from Cons show ?case
    by (simp add: set_genotype_nan_def loc_row_def x)
qed

lemma loc_row_double:
  "loc_row (double_single_alleles df c) k =
     map_option (\<lambda>r. if chrom r = c \<and> str_len (genotype r) = Some 1
                      then r\<lparr>genotype := map_option (\<lambda>g. g @ g) (genotype r)\<rparr> else r)
       (loc_row df k)"
  unfolding loc_row_def double_single_alleles_def
  by (simp only: map_of_map comp_apply)

lemma mset_index_keys_sort_snps: "mset (index_keys (sort_snps t)) = mset (index_keys t)"
  by (simp add: index_keys_def)

lemma distinct_index_keys_sort_snps [simp]:
  "distinct (index_keys (sort_snps t)) = distinct (index_keys t)"
  using mset_index_keys_sort_snps [of t] by (metis mset_eq_imp_distinct_iff)

lemma set_index_keys_sort_snps [simp]:
  "set (index_keys (sort_snps t)) = set (index_keys t)"
  by (simp add: index_keys_def)

lemma loc_row_sort_snps:
  "distinct (index_keys t) \<Longrightarrow> loc_row (sort_snps t) = loc_row t"
proof -
  assume d: "distinct (index_keys t)"
  then have "distinct (map fst (sort_snps t))" "distinct (map fst t)"
    using distinct_index_keys_sort_snps [of t] by (simp_all add: index_keys_def)
  then have "map_of (sort_snps t) = map_of t"
    by (simp add: map_of_inject_set)
  then show ?thesis
    by (intro ext) (simp add: loc_row_def)
qed

lemma alleles_differ_present:
  "alleles_differ g h \<Longrightarrow> (\<exists>x. g = Some x) \<and> (\<exists>y. h = Some y)"
  by (cases g; cases h) simp_all

lemma set_discrepant_genotypes:
  "set (discrepant_genotypes (drop_null_genotypes cs))
     = {(k, a, b). (k, a, b) \<in> set cs \<and> alleles_differ (genotype a) (genotype b)}"
  by (auto simp: discrepant_genotypes_def drop_null_genotypes_def dest: alleles_differ_present)

lemma discrepant_keys_iff:
  assumes "distinct (index_keys l)" "distinct (index_keys r)"
  shows "k \<in> set (map fst (discrepant_genotypes (drop_null_genotypes (join_inner l r))))
     \<longleftrightarrow> (\<exists>a b. loc_row l k = Some a \<and> loc_row r k = Some b
            \<and> alleles_differ (genotype a) (genotype b))"
proof -
  let ?dg = "discrepant_genotypes (drop_null_genotypes (join_inner l r))"
  have "k \<in> set (map fst ?dg) \<longleftrightarrow> (\<exists>a b. (k, a, b) \<in> set ?dg)"
    by force
  also have "\<dots> \<longleftrightarrow> (\<exists>a b. (k, a, b) \<in> set (join_inner l r)
        \<and> alleles_differ (genotype a) (genotype b))"
    by (simp add: set_discrepant_genotypes)
  finally show ?thesis
    by (simp add: join_inner_loc [OF assms])
qed

lemma index_keys_merge_snps:
  assumes "distinct (index_keys acc)" "distinct (index_keys new)"
  shows "distinct (index_keys (merge_snps acc new dg))"
    and "set (index_keys (merge_snps acc new dg)) = set (index_keys acc) \<union> set (index_keys new)"
  using assms by (simp_all add: merge_snps_def distinct_index_union)

lemma loc_row_merge_snps:
  assumes "distinct (index_keys acc)" "distinct (index_keys new)"
    and "dg = discrepant_genotypes (drop_null_genotypes (join_inner acc new))"
  shows "loc_row (merge_snps acc new dg) k = merged_row (loc_row acc k) (loc_row new k)"
proof -
  have mem: "k \<in> set (map fst dg) \<longleftrightarrow>
      (\<exists>a b. loc_row acc k = Some a \<and> loc_row new k = Some b
         \<and> alleles_differ (genotype a) (genotype b))"
    unfolding assms(3) by (rule discrepant_keys_iff [OF assms(1,2)])
  have d: "distinct (index_keys (set_genotype_nan (map fst dg) (combine_first acc new)))"
    using assms(1,2) by (simp add: distinct_index_union)
  have "loc_row (merge_snps acc new dg) k
      = map_option (\<lambda>r. if k \<in> set (map fst dg) then r\<lparr>genotype := None\<rparr> else r)
          (combine_row (loc_row acc k) (loc_row new k))"
    by (simp add: merge_snps_def loc_row_sort_snps [OF d] loc_row_set_genotype_nan
        loc_row_combine_first)
  also have "\<dots> = merged_row (loc_row acc k) (loc_row new k)"
  proof (cases "loc_row acc k")
    case None
    with mem have "k \<notin> set (map fst dg)"
      by simp
    with None show ?thesis
      by (simp add: combine_row_def merged_row_def option.map_ident)
  next
    case a: (Some a)
    show ?thesis
    proof (cases "loc_row new k")
      case None
      with mem have "k \<notin> set (map fst dg)"
        by simp
      with a None show ?thesis
        by (simp add: combine_row_def merged_row_def)
    next
      case (Some b)
      with a mem have "k \<in> set (map fst dg) \<longleftrightarrow> alleles_differ (genotype a) (genotype b)"
        by simp
      with a Some show ?thesis
        by (simp add: combine_row_def merged_row_def)
    qed
  qed
  finally show ?thesis .
qed

subsection \<open>Tables that agree\<close>

lemma alleles_differ_same [simp]: "\<not> alleles_differ g g"
  by (cases g) (auto simp: alleles_differ_Some)

lemma agreeing_iff:
  assumes "distinct (index_keys l)"
  shows "agreeing l r \<longleftrightarrow>
     (\<forall>k a b. loc_row l k = Some a \<and> loc_row r k = Some b \<longrightarrow> agree_rows a b)"
proof -
  have "agreeing l r \<longleftrightarrow>
      (\<forall>k a. (k, a) \<in> set l \<longrightarrow> (\<forall>b. loc_row r k = Some b \<longrightarrow> agree_rows a b))"
    by (auto simp: agreeing_def list_all_iff split: option.splits)
  then show ?thesis
    using assms by (simp add: loc_row_iff) blast
qed

lemma no_discrepancies:
  assumes "distinct (index_keys l)" "distinct (index_keys r)"
    and "\<forall>k a b. loc_row l k = Some a \<and> loc_row r k = Some b \<longrightarrow> agree_rows a b"
  shows "discrepant_positions (join_inner l r) = []"
    and "discrepant_genotypes (drop_null_genotypes (join_inner l r)) = []"
proof -
  have ag: "agree_rows a b" if "(k, a, b) \<in> set (join_inner l r)" for k a b
    using that assms by (simp add: join_inner_loc)
  have "\<not> (chrom a \<noteq> chrom b \<or> pos a \<noteq> pos b)" if "(k, a, b) \<in> set (join_inner l r)" for k a b
    using ag [OF that] by (simp add: agree_rows_def)
  then show "discrepant_positions (join_inner l r) = []"
    by (auto simp: discrepant_positions_def filter_empty_conv)
  have "\<not> alleles_differ (genotype a) (genotype b)" if "(k, a, b) \<in> set (join_inner l r)" for k a b
    using ag [OF that] by (auto simp: agree_rows_def)
  then have "set (discrepant_genotypes (drop_null_genotypes (join_inner l r))) = {}"
    by (auto simp: set_discrepant_genotypes)
  then show "discrepant_genotypes (drop_null_genotypes (join_inner l r)) = []"
    by simp
qed

lemma merged_row_commute:
  assumes "\<And>a b. x = Some a \<Longrightarrow> y = Some b \<Longrightarrow> agree_rows a b"
  shows "merged_row x y = merged_row y x"
proof (cases x)
  case None
  then show ?thesis
    by (cases y) (simp_all add: merged_row_def)
next
  case a: (Some a)
  show ?thesis
  proof (cases y)
    case None
    with a show ?thesis
      by (simp add: merged_row_def)
  next
    case (Some b)
    with a assms have "agree_rows a b"
      by simp
    then have "chrom a = chrom b" "pos a = pos b"
      and "genotype a = None \<or> genotype b = None \<or> genotype a = genotype b"
      by (simp_all add: agree_rows_def)
    with a Some show ?thesis
      by (cases "genotype a"; cases "genotype b") (auto simp: merged_row_def)
  qed
qed

lemma merged_row_same [simp]: "merged_row x x = x"
  by (cases x) (auto simp: merged_row_def split: option.splits)

lemma same_rows:
  assumes "distinct (index_keys t)" "distinct (index_keys u)" "\<And>k. loc_row t k = loc_row u k"
  shows "mset t = mset u"
proof -
  from assms(1,2) have dt: "distinct (map fst t)" and du: "distinct (map fst u)"
    by (simp_all add: index_keys_def)
  have "map_of t = map_of u"
    using assms(3) by (intro ext) (simp add: loc_row_def)
  with dt du have "set t = set u"
    by (simp add: map_of_inject_set)
  moreover from dt du have "distinct t" "distinct u"
    by (simp_all add: distinct_map)
  ultimately show ?thesis
    by (simp add: set_eq_iff_mset_eq_distinct)
qed

lemma add_snps_agreeing:
  assumes "distinct (index_keys acc)" "distinct (index_keys df)"
    and "\<forall>k a b. loc_row acc k = Some a \<and> loc_row (double_single_alleles df ''X'') k = Some b
          \<longrightarrow> agree_rows a b"
    and "0 < pt" "0 < gt"
  shows "\<exists>t. add_snps (Some acc) (Some df) pt gt = Some t \<and> distinct (index_keys t)
    \<and> (\<forall>k. loc_row t k = merged_row (loc_row acc k) (loc_row (double_single_alleles df ''X'') k))"
proof -
  let ?new = "double_single_alleles df ''X''"
  have dn: "distinct (index_keys ?new)"
    using assms(2) by simp
  note nd = no_discrepancies [OF assms(1) dn assms(3)]
  have r: "add_snps (Some acc) (Some df) pt gt = Some (merge_snps acc ?new [])"
    using assms(4,5) by (simp add: add_snps_Some Let_def nd)
  have "loc_row (merge_snps acc ?new []) k = merged_row (loc_row acc k) (loc_row ?new k)" for k
    using assms(1) dn by (rule loc_row_merge_snps) (simp add: nd)
  with r index_keys_merge_snps(1) [OF assms(1) dn, of "[]"] show ?thesis
    by simp
qed

lemma add_snps_keeps_positions:
  assumes "distinct (index_keys acc)" "distinct (index_keys df)"
    and "add_snps (Some acc) (Some df) pt gt = Some t"
    and "loc_row acc k = Some a"
  shows "\<exists>r. loc_row t k = Some r \<and> chrom r = chrom a \<and> pos r = pos a"
proof -
  let ?new = "double_single_alleles df ''X''"
  let ?dg = "discrepant_genotypes (drop_null_genotypes (join_inner acc ?new))"
  have dn: "distinct (index_keys ?new)"
    using assms(2) by simp
  from assms(3) have "t = acc \<or> t = merge_snps acc ?new ?dg"
    by (auto simp: add_snps_Some Let_def split: if_splits)
  then show ?thesis
  proof
    assume "t = acc"
    with assms(4) show ?thesis by simp
  next
    assume "t = merge_snps acc ?new ?dg"
    then have "loc_row t k = merged_row (loc_row acc k) (loc_row ?new k)"
      using loc_row_merge_snps [OF assms(1) dn refl] by simp
    with assms(4) show ?thesis
      by (cases "loc_row ?new k") (simp_all add: merged_row_def)
  qed
qed

lemma canonical_add_snps_Some:
  "add_snps st (Some df) pt gt = Some t \<Longrightarrow>
     (case st of None \<Rightarrow> True | Some acc \<Rightarrow> canonical acc) \<Longrightarrow> canonical t"
  using canonical_add_snps [of st "Some df" pt gt] by simp

subsection \<open>The numbered sample tables\<close>

lemma numbered_Suc:
  "numbered c first (Suc n) = numbered c first n @ [(numbered_key n, numbered_row c first n)]"
  by (simp add: numbered_def)

lemma numbered_key_inj [simp]: "numbered_key i = numbered_key j \<longleftrightarrow> i = j"
proof
  assume "numbered_key i = numbered_key j"
  then have "length (numbered_key i) = length (numbered_key j)"
    by simp
  then show "i = j"
    by (simp add: numbered_key_def)
qed simp

lemma distinct_numbered: "distinct (index_keys (numbered c first n))"
  by (simp add: index_keys_def numbered_def comp_def distinct_map inj_on_def)

lemma double_numbered: "double_single_alleles (numbered c first n) x = numbered c first n"
  by (simp add: double_single_alleles_def numbered_def numbered_row_def str_len_def)

lemma filter_numbered:
  "filter (\<lambda>(k', b). k' = numbered_key i) (numbered c first m)
     = (if i < m then [(numbered_key i, numbered_row c first i)] else [])"
proof (induction m)
  case 0
  show ?case
    by (simp add: numbered_def)
next
  case (Suc m)
  then show ?case
    by (auto simp: numbered_Suc)
qed

lemma join_inner_snoc:
  "join_inner (l @ [(k, a)]) r
     = join_inner l r @ map (\<lambda>(k', b). (k, a, b)) (filter (\<lambda>(k', b). k' = k) r)"
  by (simp add: join_inner_def)

lemma join_numbered:
  "join_inner (numbered c first n) (numbered c' first' m)
     = map (\<lambda>i. (numbered_key i, numbered_row c first i, numbered_row c' first' i)) [0..<min n m]"
proof (induction n)
  case 0
  show ?case
    by (simp add: numbered_def join_inner_def)
next
  case (Suc n)
  show ?case
  proof (cases "n < m")
    case True
    then have "min (Suc n) m = Suc n" "min n m = n"
      by simp_all
    with Suc True show ?thesis
      by (simp add: numbered_Suc join_inner_snoc filter_numbered)
  next
    case False
    then have "min (Suc n) m = m" "min n m = m"
      by simp_all
    with Suc False show ?thesis
      by (simp add: numbered_Suc join_inner_snoc filter_numbered)
  qed
qed

lemma discrepant_numbered:
  assumes "first \<noteq> first'"
  shows "discrepant_positions (join_inner (numbered c first n) (numbered c' first' m))
     = map (\<lambda>i. (numbered_key i, numbered_row c first i, numbered_row c' first' i)) [0..<min n m]"
  using assms
  by (simp add: join_numbered discrepant_positions_def filter_map comp_def numbered_row_def)

section \<open>The genotype discrepancy rule\<close>

text \<open>
  C3. At a common key the two genotypes are classified discrepant iff both have length 1
  and the characters differ, or both have length 2 and neither the direct nor the
  swapped pairing matches. Hence a missing genotype on either side is never
  discrepant, a pair of lengths 1 and 2 is never discrepant, and \<open>AG\<close> against \<open>GA\<close> is
  not discrepant. The rows \<^verbatim>\<open>_add_snps\<close> selects as \<^verbatim>\<open>discrepant_genotypes\<close>, after it has
  removed the null genotypes, are the common rows that this rule classifies discrepant.
\<close>

theorem genotype_discrepancy_rule:
  "(alleles_differ g h \<longleftrightarrow>
      (\<exists>a b. g = Some [a] \<and> h = Some [b] \<and> a \<noteq> b)
      \<or> (\<exists>a b c d. g = Some [a, b] \<and> h = Some [c, d]
            \<and> \<not> (a = c \<and> b = d) \<and> \<not> (a = d \<and> b = c)))
   \<and> \<not> alleles_differ None h \<and> \<not> alleles_differ g None
   \<and> \<not> alleles_differ (Some [a]) (Some [c, d]) \<and> \<not> alleles_differ (Some [a, b]) (Some [c])
   \<and> \<not> alleles_differ (Some ''AG'') (Some ''GA'')
   \<and> ((k, x, y) \<in> set (discrepant_genotypes (drop_null_genotypes cs)) \<longleftrightarrow>
        (k, x, y) \<in> set cs \<and> alleles_differ (genotype x) (genotype y))"
proof -
  have "alleles_differ g h \<longleftrightarrow>
      (\<exists>a b. g = Some [a] \<and> h = Some [b] \<and> a \<noteq> b)
      \<or> (\<exists>a b c d. g = Some [a, b] \<and> h = Some [c, d]
            \<and> \<not> (a = c \<and> b = d) \<and> \<not> (a = d \<and> b = c))"
    by (cases g; cases h) (simp_all add: alleles_differ_Some)
  moreover have "\<not> alleles_differ (Some [a]) (Some [c, d])" "\<not> alleles_differ (Some [a, b]) (Some [c])"
    "\<not> alleles_differ (Some ''AG'') (Some ''GA'')"
    by (simp_all add: alleles_differ_Some)
  moreover have "(k, x, y) \<in> set (discrepant_genotypes (drop_null_genotypes cs)) \<longleftrightarrow>
        (k, x, y) \<in> set cs \<and> alleles_differ (genotype x) (genotype y)"
    by (cases "genotype x"; cases "genotype y")
       (auto simp: discrepant_genotypes_def drop_null_genotypes_def)
  ultimately show ?thesis by simp
qed

text \<open>An instance: \<open>AC\<close> against \<open>AG\<close> is discrepant, \<open>A\<close> against \<open>AG\<close> and \<open>AG\<close> against \<open>GA\<close> are not.\<close>

theorem genotype_discrepancy_rule_witness:
  "alleles_differ (Some ''AC'') (Some ''AG'')
   \<and> \<not> alleles_differ (Some ''A'') (Some ''AG'')
   \<and> \<not> alleles_differ (Some ''AG'') (Some ''GA'')
   \<and> \<not> alleles_differ None (Some ''GA'')"
  using genotype_discrepancy_rule
      [where g = "Some ''AC''" and h = "Some ''AG''" and a = "CHR ''A''" and c = "CHR ''A''"
         and d = "CHR ''G''"]
    genotype_discrepancy_rule [where g = None and h = "Some ''GA''"]
  by simp

section \<open>Aborted merges\<close>



section \<open>Position discrepancies below the threshold\<close>



section \<open>Doubling single alleles\<close>

text \<open>
  C5. \<^verbatim>\<open>_double_single_alleles(df, 'X')\<close> keeps the rows, their order and their keys; in
  every row it keeps chromosome and position, and it changes the genotype only where the
  chromosome is \<open>X\<close> and the genotype is a single character, which it repeats.
  \<^verbatim>\<open>_add_snps\<close> applies it to the frame it is given before anything else, so adding a
  frame is adding its normalised form. When the genotypes on \<open>X\<close> have length 1 or 2, as
  the data model of the specification has them, every genotype present on \<open>X\<close> has two
  characters afterwards.
\<close>

theorem double_single_alleles_X:
  "list_all2
     (\<lambda>(k, r) (k', r'). k' = k \<and> chrom r' = chrom r \<and> pos r' = pos r
        \<and> genotype r' =
            (if chrom r = ''X''
             then (case genotype r of Some [a] \<Rightarrow> Some [a, a] | g \<Rightarrow> g)
             else genotype r))
     df (double_single_alleles df ''X'')
   \<and> add_snps st (Some df) pt gt = add_snps st (Some (double_single_alleles df ''X'')) pt gt
   \<and> ((\<forall>(k, r) \<in> set df. chrom r = ''X'' \<longrightarrow>
          (\<forall>g. genotype r = Some g \<longrightarrow> length g = 1 \<or> length g = 2))
      \<longrightarrow> (\<forall>(k, r) \<in> set (double_single_alleles df ''X''). chrom r = ''X'' \<longrightarrow>
          (\<forall>g. genotype r = Some g \<longrightarrow> length g = 2)))"
proof -
  have one: "length x = Suc 0 \<longleftrightarrow> (\<exists>a. x = [a])" for x :: string
    by (cases x) auto
  have rows: "list_all2
     (\<lambda>(k, r) (k', r'). k' = k \<and> chrom r' = chrom r \<and> pos r' = pos r
        \<and> genotype r' =
            (if chrom r = ''X''
             then (case genotype r of Some [a] \<Rightarrow> Some [a, a] | g \<Rightarrow> g)
             else genotype r))
     df (double_single_alleles df ''X'')"
    unfolding double_single_alleles_def list_all2_map2
    by (rule list_all2_refl) (auto simp: str_len_def one split: option.splits list.splits)
  have lens: "\<forall>(k, r) \<in> set (double_single_alleles df ''X''). chrom r = ''X'' \<longrightarrow>
          (\<forall>g. genotype r = Some g \<longrightarrow> length g = 2)"
    if "\<forall>(k, r) \<in> set df. chrom r = ''X'' \<longrightarrow>
          (\<forall>g. genotype r = Some g \<longrightarrow> length g = 1 \<or> length g = 2)"
    using that unfolding double_single_alleles_def
    by (fastforce simp: str_len_def split: if_splits)
  show ?thesis
    using rows lens by (simp add: add_snps_double)
qed

text \<open>An instance with a single call, a pair, another chromosome and a missing genotype.\<close>

theorem double_single_alleles_X_witness:
  "double_single_alleles sample_x ''X'' =
     [(''rs5'', \<lparr>chrom = ''X'', pos = 500, genotype = Some ''AA''\<rparr>),
      (''rs6'', \<lparr>chrom = ''X'', pos = 600, genotype = Some ''AG''\<rparr>),
      (''rs7'', \<lparr>chrom = ''1'', pos = 700, genotype = Some ''C''\<rparr>),
      (''rs8'', \<lparr>chrom = ''X'', pos = 800, genotype = None\<rparr>)]
   \<and> list_all (\<lambda>(k, r). chrom r = ''X'' \<and> genotype r \<noteq> None \<longrightarrow> map_option length (genotype r) = Some 2)
       (double_single_alleles sample_x ''X'')"
proof -
  have h: "\<forall>(k, r) \<in> set sample_x. chrom r = ''X'' \<longrightarrow>
          (\<forall>g. genotype r = Some g \<longrightarrow> length g = 1 \<or> length g = 2)"
    by (simp add: sample_x_def)
  have d: "double_single_alleles sample_x ''X'' =
     [(''rs5'', \<lparr>chrom = ''X'', pos = 500, genotype = Some ''AA''\<rparr>),
      (''rs6'', \<lparr>chrom = ''X'', pos = 600, genotype = Some ''AG''\<rparr>),
      (''rs7'', \<lparr>chrom = ''1'', pos = 700, genotype = Some ''C''\<rparr>),
      (''rs8'', \<lparr>chrom = ''X'', pos = 800, genotype = None\<rparr>)]"
    by (simp add: sample_x_def double_single_alleles_def str_len_def)
  from double_single_alleles_X [of sample_x None 100 10000] h
  have "\<forall>(k, r) \<in> set (double_single_alleles sample_x ''X''). chrom r = ''X'' \<longrightarrow>
          (\<forall>g. genotype r = Some g \<longrightarrow> length g = 2)"
    by blast
  then have "list_all (\<lambda>(k, r). chrom r = ''X'' \<and> genotype r \<noteq> None \<longrightarrow> map_option length (genotype r) = Some 2)
       (double_single_alleles sample_x ''X'')"
    by (auto simp: list_all_iff)
  with d show ?thesis by simp
qed

section \<open>Errors of a load\<close>



section \<open>The \<^verbatim>\<open>snps\<close> property\<close>

text \<open>
  C10. A new individual without raw data owns no table and its \<^verbatim>\<open>snps\<close> is \<^verbatim>\<open>None\<close>. For
  an individual that owns no table, \<^verbatim>\<open>snps\<close> is still \<^verbatim>\<open>None\<close> after a load iff every file
  of the load yielded no frame (a merge cannot abort before a first frame is adopted);
  it is never an empty table in that case. Once a table is owned, \<^verbatim>\<open>snps\<close> returns a copy
  with the rows of the owned table, and it stays a table after every further load.
\<close>

theorem snps_property:
  "new_individual env nm None = Inr \<lparr>name = nm, snps_owned = None\<rparr>
   \<and> snps \<lparr>name = nm, snps_owned = None\<rparr> = None
   \<and> (snps_owned self = None \<and> load_snps env self (PyList files) pt gt = Inr self' \<longrightarrow>
        (snps self' = None \<longleftrightarrow> (\<forall>f \<in> set files. read_raw_data env f = None)))
   \<and> (snps_owned self = None \<and> load_snps env self (PyStr path) pt gt = Inr self' \<longrightarrow>
        (snps self' = None \<longleftrightarrow> read_raw_data env path = None))
   \<and> (snps_owned self = Some t \<longrightarrow>
        snps self = Some t
        \<and> (\<forall>self'. load_snps env self raw pt gt = Inr self' \<longrightarrow> (\<exists>t'. snps self' = Some t')))"
proof -
  have none_iff: "snps x = None \<longleftrightarrow> snps_owned x = None" for x
    by (simp add: snps_def split: option.splits)
  have a: "snps self' = None \<longleftrightarrow> (\<forall>f \<in> set files. read_raw_data env f = None)"
    if "snps_owned self = None" "load_snps env self (PyList files) pt gt = Inr self'"
    using that load_files_None_iff [of env files pt gt]
    by (auto simp: load_snps_def none_iff)
  have b: "snps self' = None \<longleftrightarrow> read_raw_data env path = None"
    if "snps_owned self = None" "load_snps env self (PyStr path) pt gt = Inr self'"
    using that by (cases "read_raw_data env path") (auto simp: load_snps_def none_iff)
  have c: "\<exists>t'. snps self' = Some t'"
    if "snps_owned self = Some t" "load_snps env self raw pt gt = Inr self'" for self'
  proof (cases raw)
    case (PyList files)
    with that load_files_stays_Some [of env t files pt gt] show ?thesis
      by (auto simp: load_snps_def snps_def df_copy_def)
  next
    case (PyStr path)
    with that add_snps_stays_Some [of t "read_raw_data env path" pt gt] show ?thesis
      by (auto simp: load_snps_def snps_def df_copy_def)
  next
    case PyOther
    with that show ?thesis by (simp add: load_snps_def)
  qed
  have d: "snps self = Some t" if "snps_owned self = Some t"
    using that by (simp add: snps_def df_copy_def)
  show ?thesis
    using a b c d by (simp add: new_individual_def snps_def)
qed

text \<open>An instance: three files that yield no frame, then a batch with a good file.\<close>

theorem snps_property_witness:
  "snps \<lparr>name = ''ind'', snps_owned = None\<rparr> = None
   \<and> load_snps sample_env \<lparr>name = ''ind'', snps_owned = None\<rparr>
        (PyList [''missing.txt'', ''notes.txt'', ''broken.txt'']) 100 10000
      = Inr \<lparr>name = ''ind'', snps_owned = None\<rparr>
   \<and> load_snps sample_env \<lparr>name = ''ind'', snps_owned = None\<rparr>
        (PyList [''missing.txt'', ''acc.txt'']) 100 10000
      = Inr \<lparr>name = ''ind'', snps_owned = Some sample_acc\<rparr>
   \<and> snps \<lparr>name = ''ind'', snps_owned = Some sample_acc\<rparr> = Some sample_acc"
proof -
  let ?ind = "\<lparr>name = ''ind'', snps_owned = None\<rparr>"
  have l: "load_snps sample_env ?ind (PyList [''missing.txt'', ''notes.txt'', ''broken.txt'']) 100 10000
      = Inr ?ind"
    by code_simp
  have r: "\<forall>f \<in> set [''missing.txt'', ''notes.txt'', ''broken.txt'']. read_raw_data sample_env f = None"
    by code_simp
  have o: "snps_owned ?ind = None"
    by simp
  from snps_property [of sample_env "''ind''" ?ind "[''missing.txt'', ''notes.txt'', ''broken.txt'']"
      100 10000 ?ind] o l r
  have s0: "snps ?ind = None"
    by blast
  have l2: "load_snps sample_env ?ind (PyList [''missing.txt'', ''acc.txt'']) 100 10000
      = Inr \<lparr>name = ''ind'', snps_owned = Some sample_acc\<rparr>"
    by code_simp
  have o2: "snps_owned \<lparr>name = ''ind'', snps_owned = Some sample_acc\<rparr> = Some sample_acc"
    by simp
  from snps_property [where self = "\<lparr>name = ''ind'', snps_owned = Some sample_acc\<rparr>" and t = sample_acc] o2
  have s1: "snps \<lparr>name = ''ind'', snps_owned = Some sample_acc\<rparr> = Some sample_acc"
    by blast
  from s0 l l2 s1 show ?thesis by simp
qed

section \<open>Canonical order\<close>



section \<open>Merges that are not aborted\<close>



section \<open>Loading the same source twice\<close>

text \<open>
  C7. Let a source table have one row per rsid. Loading it into an individual without
  data and then loading it again leaves the table of the first load: the second load
  yields a table with the same records (the same row for every rsid, one row per rsid),
  again in canonical order, whatever the thresholds. Tables are compared as the data
  model of the specification has them, as sets of records keyed by rsid.
\<close>

theorem reconcile_idempotent:
  assumes "distinct (index_keys df)"
  shows "\<exists>t1 t2. add_snps None (Some df) pt gt = Some t1
    \<and> add_snps (Some t1) (Some df) pt gt = Some t2
    \<and> mset t2 = mset t1
    \<and> (\<forall>k. loc_row t2 k = loc_row t1 k)
    \<and> distinct (index_keys t1) \<and> distinct (index_keys t2)
    \<and> canonical t1 \<and> canonical t2"
proof -
  let ?new = "double_single_alleles df ''X''"
  let ?t1 = "sort_snps ?new"
  let ?dg = "discrepant_genotypes (drop_null_genotypes (join_inner ?t1 ?new))"
  have dn: "distinct (index_keys ?new)"
    using assms by simp
  have d1: "distinct (index_keys ?t1)"
    using dn by simp
  have l1: "loc_row ?t1 = loc_row ?new"
    using dn by (rule loc_row_sort_snps)
  obtain t2 where t2: "add_snps (Some ?t1) (Some df) pt gt = Some t2"
    using add_snps_stays_Some by blast
  then have "t2 = ?t1 \<or> t2 = merge_snps ?t1 ?new ?dg"
    by (auto simp: add_snps_Some Let_def split: if_splits)
  then have props: "distinct (index_keys t2) \<and> (\<forall>k. loc_row t2 k = loc_row ?t1 k)"
  proof
    assume "t2 = ?t1"
    with d1 show ?thesis by simp
  next
    assume m: "t2 = merge_snps ?t1 ?new ?dg"
    have "loc_row t2 k = loc_row ?t1 k" for k
      using loc_row_merge_snps [OF d1 dn refl, of k] by (simp add: m l1)
    moreover have "distinct (index_keys t2)"
      unfolding m using d1 dn by (rule index_keys_merge_snps)
    ultimately show ?thesis by simp
  qed
  then have ms: "mset t2 = mset ?t1"
    using d1 by (intro same_rows) simp_all
  have c1: "canonical ?t1"
    by (rule canonical_sort_snps)
  have c2: "canonical t2"
    using t2 c1 by (rule canonical_add_snps_Some [where st = "Some ?t1", simplified])
  from t2 props ms d1 c1 c2 show ?thesis
    by simp
qed

text \<open>An instance, with a single call on \<open>X\<close> that the first load doubles.\<close>

theorem reconcile_idempotent_witness:
  "add_snps None (Some sample_first) 100 10000 =
     Some [(''rs1'', \<lparr>chrom = ''1'', pos = 100, genotype = Some ''GA''\<rparr>),
           (''rs3'', \<lparr>chrom = ''1'', pos = 300, genotype = Some ''CC''\<rparr>),
           (''rs9'', \<lparr>chrom = ''X'', pos = 5, genotype = Some ''AA''\<rparr>)]
   \<and> mset (the (add_snps (add_snps None (Some sample_first) 100 10000) (Some sample_first) 100 10000))
       = mset (the (add_snps None (Some sample_first) 100 10000))
   \<and> canonical (the (add_snps (add_snps None (Some sample_first) 100 10000) (Some sample_first) 100 10000))"
proof -
  have v: "add_snps None (Some sample_first) 100 10000 =
     Some [(''rs1'', \<lparr>chrom = ''1'', pos = 100, genotype = Some ''GA''\<rparr>),
           (''rs3'', \<lparr>chrom = ''1'', pos = 300, genotype = Some ''CC''\<rparr>),
           (''rs9'', \<lparr>chrom = ''X'', pos = 5, genotype = Some ''AA''\<rparr>)]"
    by code_simp
  have d: "distinct (index_keys sample_first)"
    by code_simp
  from reconcile_idempotent [OF d, of 100 10000]
  obtain t1 t2 where "add_snps None (Some sample_first) 100 10000 = Some t1"
    and "add_snps (Some t1) (Some sample_first) 100 10000 = Some t2"
    and "mset t2 = mset t1" and "canonical t2"
    by blast
  then have "mset (the (add_snps (add_snps None (Some sample_first) 100 10000) (Some sample_first) 100 10000))
       = mset (the (add_snps None (Some sample_first) 100 10000))
   \<and> canonical (the (add_snps (add_snps None (Some sample_first) 100 10000) (Some sample_first) 100 10000))"
    by simp
  with v show ?thesis
    by (intro conjI) (assumption | erule conjunct1 | erule conjunct2)+
qed

section \<open>The order of two loads\<close>




end
